theory Spec2Isabelle
  imports Complex_Main
begin

section \<open>Data model of the monitoring cycle (full2.py)\<close>

text \<open>
  Instants are whole seconds on the wall clock of the datetime's own zone, counted from
  1970-01-01 00:00:00 (CloudWatch datapoints with \<open>Period=60\<close> and access-log timestamps
  carry no finer part). A \<open>timedelta\<close> is a number of seconds. CPU averages are Python
  floats; they are modelled as reals, so NaN is outside the model.
\<close>

type_synonym instant = int

definition minutes :: "int \<Rightarrow> int" where
  "minutes n = 60 * n"

definition seconds :: "int \<Rightarrow> int" where
  "seconds n = n"

text \<open>One element of the list returned by \<open>get_cpu_per_minute\<close>.\<close>

record datapoint =
  Timestamp :: instant
  CPU :: real

text \<open>One element of the list returned by \<open>get_all_gunicorn_sites\<close>.\<close>

record site =
  site_name :: string
  access_log_path :: string

text \<open>The inner dictionary \<open>{'before': _, 'spike': _, 'after': _}\<close> and its three keys.\<close>

record counts =
  before :: int
  spike :: int
  after :: int

datatype window = Before | Spike | After

text \<open>
  \<open>log_counts\<close> is a Python dict keyed by site name. A dict iterates in insertion order
  and holds each key once, so it is an association list whose keys are distinct.
\<close>

type_synonym log_counts = "(string \<times> counts) list"

section \<open>Spike detection: \<open>max(cpu_per_minute, key=lambda x: x["CPU"])\<close>\<close>

text \<open>
  Python's \<open>max\<close> keeps the first item and replaces it only by an item whose key is
  strictly greater; on an empty sequence it raises ValueError (\<open>None\<close> here).
\<close>

definition py_max_step :: "('a \<Rightarrow> 'k::linorder) \<Rightarrow> 'a \<Rightarrow> 'a \<Rightarrow> 'a" where
  "py_max_step key maxitem item = (if key item > key maxitem then item else maxitem)"

fun py_max_key :: "('a \<Rightarrow> 'k::linorder) \<Rightarrow> 'a list \<Rightarrow> 'a option" where
  "py_max_key key [] = None"
| "py_max_key key (x # xs) = Some (foldl (py_max_step key) x xs)"

section \<open>Spike attribution (the loop over \<open>log_counts.items()\<close>)\<close>

definition site_spike :: "counts \<Rightarrow> int" where
  "site_spike c =
     (let before_count = before c;
          spike_count = spike c;
          after_count = after c;
          diff_before_spike = \<bar>spike_count - before_count\<bar>;
          diff_spike_after = \<bar>after_count - spike_count\<bar>;
          diff_before_after = \<bar>after_count - before_count\<bar>
      in max (max diff_before_spike diff_spike_after) diff_before_after)"

text \<open>The loop state is the pair \<open>(Spike_site, max_spike)\<close>, initially \<open>(None, 0)\<close>.\<close>

definition attribute_step :: "string option \<times> int \<Rightarrow> string \<times> counts \<Rightarrow> string option \<times> int" where
  "attribute_step st item =
     (if site_spike (snd item) > snd st then (Some (fst item), site_spike (snd item)) else st)"

definition attribute :: "log_counts \<Rightarrow> string option \<times> int" where
  "attribute lc = foldl attribute_step (None, 0) lc"

section \<open>Text: formatting instants, awk's string operations, Python's \<open>int\<close> and \<open>strip\<close>\<close>

text \<open>
  \<open>strftime("%d/%b/%Y:%H:%M:%S")\<close> on the proleptic Gregorian calendar of Python's
  \<open>datetime\<close>, in the C locale. \<open>civil_from_days\<close> turns a day number (days since
  1970-01-01) into year, month and day.
\<close>

definition civil_from_days :: "int \<Rightarrow> int \<times> int \<times> int" where
  "civil_from_days z0 =
     (let z = z0 + 719468;
          era = z div 146097;
          doe = z mod 146097;
          yoe = (doe - doe div 1460 + doe div 36524 - doe div 146096) div 365;
          doy = doe - (365 * yoe + yoe div 4 - yoe div 100);
          mp = (5 * doy + 2) div 153;
          d = doy - (153 * mp + 2) div 5 + 1;
          m = (if mp < 10 then mp + 3 else mp - 9);
          y = yoe + era * 400 + (if m \<le> 2 then 1 else 0)
      in (y, m, d))"

definition digit_char :: "int \<Rightarrow> char" where
  "digit_char d = ''0123456789'' ! nat (d mod 10)"

definition two_digits :: "int \<Rightarrow> string" where
  "two_digits n = [digit_char (n div 10), digit_char n]"

definition four_digits :: "int \<Rightarrow> string" where
  "four_digits n = [digit_char (n div 1000), digit_char (n div 100), digit_char (n div 10), digit_char n]"

definition month_abbr :: "int \<Rightarrow> string" where
  "month_abbr m =
     [''Jan'', ''Feb'', ''Mar'', ''Apr'', ''May'', ''Jun'',
      ''Jul'', ''Aug'', ''Sep'', ''Oct'', ''Nov'', ''Dec''] ! nat ((m - 1) mod 12)"

definition strftime_log :: "instant \<Rightarrow> string" where
  "strftime_log t =
     (let (y, m, d) = civil_from_days (t div 86400);
          sod = t mod 86400
      in two_digits d @ ''/'' @ month_abbr m @ ''/'' @ four_digits y @ '':''
         @ two_digits (sod div 3600) @ '':'' @ two_digits (sod mod 3600 div 60) @ '':''
         @ two_digits (sod mod 60))"

text \<open>
  awk compares two strings byte by byte, a proper prefix being the smaller one. Both
  operands of \<open>t >= start\<close> and \<open>t <= end\<close> are strings: \<open>t\<close> is the value of
  \<open>substr\<close> and the bounds do not look like numbers.
\<close>

fun awk_le :: "string \<Rightarrow> string \<Rightarrow> bool" where
  "awk_le [] ys = True"
| "awk_le (x # xs) [] = False"
| "awk_le (x # xs) (y # ys) =
     (if (of_char x :: nat) < of_char y then True
      else if (of_char y :: nat) < of_char x then False
      else awk_le xs ys)"

text \<open>\<open>substr(s, m, n)\<close> for \<open>m \<ge> 1\<close>: at most \<open>n\<close> characters from the \<open>m\<close>-th on.\<close>

definition substr :: "string \<Rightarrow> nat \<Rightarrow> nat \<Rightarrow> string" where
  "substr s m n = take n (drop (m - 1) s)"

text \<open>Default field splitting: fields are the maximal runs of non-blank characters.\<close>

definition is_blank :: "char \<Rightarrow> bool" where
  "is_blank c \<longleftrightarrow> c = CHR '' '' \<or> c = CHR 0x09 \<or> c = CHR 0x0A"

fun split_blank :: "string \<Rightarrow> string \<Rightarrow> string list" where
  "split_blank cur [] = (if cur = [] then [] else [cur])"
| "split_blank cur (c # cs) =
     (if is_blank c then (if cur = [] then split_blank [] cs else cur # split_blank [] cs)
      else split_blank (cur @ [c]) cs)"

definition awk_field :: "nat \<Rightarrow> string \<Rightarrow> string" where
  "awk_field n line =
     (let fs = split_blank [] line in if 1 \<le> n \<and> n \<le> length fs then fs ! (n - 1) else [])"

text \<open>
  The awk program of \<open>count_logs\<close> (\<open>n = 19\<close>) and of \<open>fetch_logs_window\<close> (\<open>n = 20\<close>):
  \<open>{ t = substr($4, 2, n); if (t >= start && t <= end) print }\<close>.
\<close>

definition awk_prints :: "nat \<Rightarrow> string \<Rightarrow> string \<Rightarrow> string \<Rightarrow> bool" where
  "awk_prints n start_str end_str line =
     (let t = substr (awk_field 4 line) 2 n in awk_le start_str t \<and> awk_le t end_str)"

text \<open>
  \<open>str.strip()\<close> and \<open>int(str)\<close>; \<open>None\<close> is ValueError. A character of a Python string
  is a code point, and the model has the code points below 256. Among them \<open>strip\<close>
  removes 9 to 13, 28 to 32, 133 and 160, \<open>int\<close> skips 9 to 13, 32, 133 and 160 around
  the number, and the only decimal digits are 48 to 57.
\<close>

definition is_py_space :: "char \<Rightarrow> bool" where
  "is_py_space c \<longleftrightarrow>
     (let n = (of_char c :: nat)
      in (9 \<le> n \<and> n \<le> 13) \<or> (28 \<le> n \<and> n \<le> 32) \<or> n = 133 \<or> n = 160)"

definition py_strip :: "string \<Rightarrow> string" where
  "py_strip s = rev (dropWhile is_py_space (rev (dropWhile is_py_space s)))"

definition is_int_space :: "char \<Rightarrow> bool" where
  "is_int_space c \<longleftrightarrow>
     (let n = (of_char c :: nat) in (9 \<le> n \<and> n \<le> 13) \<or> n = 32 \<or> n = 133 \<or> n = 160)"

definition is_digit :: "char \<Rightarrow> bool" where
  "is_digit c \<longleftrightarrow> (let n = (of_char c :: nat) in 48 \<le> n \<and> n \<le> 57)"

text \<open>
  Digits with single underscores between them; \<open>prev\<close> tells whether the character
  before was a digit and \<open>n\<close> counts the digits read. More than 4300 digits (the default
  of \<open>sys.get_int_max_str_digits()\<close>; underscores and the sign do not count, leading
  zeros do) are a ValueError.
\<close>

fun py_digits :: "bool \<Rightarrow> nat \<Rightarrow> int \<Rightarrow> string \<Rightarrow> int option" where
  "py_digits prev n acc [] = (if prev \<and> n \<le> 4300 then Some acc else None)"
| "py_digits prev n acc (c # cs) =
     (if is_digit c then py_digits True (Suc n) (10 * acc + (int (of_char c) - 48)) cs
      else if c = CHR ''_'' \<and> prev then py_digits False n acc cs
      else None)"

definition py_int :: "string \<Rightarrow> int option" where
  "py_int s =
     (case rev (dropWhile is_int_space (rev (dropWhile is_int_space s))) of
        [] \<Rightarrow> None
      | c # cs \<Rightarrow>
          if c = CHR ''-'' then map_option uminus (py_digits False 0 0 cs)
          else if c = CHR ''+'' then py_digits False 0 0 cs
          else py_digits False 0 0 (c # cs))"

section \<open>The remote-execution channel (SSM)\<close>

text \<open>
  The shell command a stage sends, by the parts the f-string fills in: the two bounds
  and the log path. \<open>CountLines\<close> is \<open>awk ... substr($4, 2, 19) ... path | wc -l\<close>,
  \<open>PrintLines\<close> is \<open>awk ... substr($4, 2, 20) ... path || echo 'No logs found in the window.'\<close>.
\<close>

datatype command = CountLines string string string | PrintLines string string string

text \<open>
  What \<open>send_command\<close> followed by \<open>get_command_invocation\<close> gives the caller: an
  exception (with its text), or the response's \<open>StandardOutputContent\<close> entry if any.
  The channel is an input of the cycle: \<open>ssm k cmd\<close> is the outcome of the cycle's
  \<open>k\<close>-th call after discovery, sent with command \<open>cmd\<close>.
\<close>

datatype ssm_result = Raised string | Invocation "string option"

type_synonym ssm_channel = "nat \<Rightarrow> command \<Rightarrow> ssm_result"

text \<open>
  What the two commands write to standard output on a host whose files are \<open>fs\<close> (a log
  file as its list of lines, \<open>None\<close> for a missing file), and the channel that always
  delivers it. The output is handed over as text unchanged, which is what decoding does
  to ASCII output.
\<close>

fun show_nat :: "nat \<Rightarrow> string" where
  "show_nat n = (if n < 10 then [digit_char (int n)] else show_nat (n div 10) @ [digit_char (int n)])"

declare show_nat.simps [simp del]

fun run_command :: "(string \<Rightarrow> string list option) \<Rightarrow> command \<Rightarrow> string" where
  "run_command fs (CountLines start_str end_str path) =
     show_nat (case fs path of None \<Rightarrow> 0
               | Some ls \<Rightarrow> length (filter (awk_prints 19 start_str end_str) ls)) @ [CHR 0x0A]"
| "run_command fs (PrintLines start_str end_str path) =
     (case fs path of None \<Rightarrow> ''No logs found in the window.'' @ [CHR 0x0A]
      | Some ls \<Rightarrow> concat (map (\<lambda>l. l @ [CHR 0x0A]) (filter (awk_prints 20 start_str end_str) ls)))"

definition reliable_ssm :: "(string \<Rightarrow> string list option) \<Rightarrow> ssm_channel" where
  "reliable_ssm fs k cmd = Invocation (Some (run_command fs cmd))"

section \<open>\<open>get_log_counts_for_sites\<close>\<close>

text \<open>
  \<open>count_logs\<close>: the whole body is inside \<open>try\<close>, so a raised call and an output that
  \<open>int\<close> rejects both give 0; \<open>int(s.strip() or 0)\<close> is 0 on blank output.
\<close>

definition count_logs :: "(command \<Rightarrow> ssm_result) \<Rightarrow> site \<Rightarrow> instant \<Rightarrow> instant \<Rightarrow> int" where
  "count_logs run st start_time end_time =
     (let start_str = strftime_log start_time;
          end_str = strftime_log end_time;
          cmd = CountLines start_str end_str (access_log_path st)
      in case run cmd of
           Raised e \<Rightarrow> 0
         | Invocation out \<Rightarrow>
             (let s = py_strip (case out of None \<Rightarrow> ''0'' | Some x \<Rightarrow> x)
              in if s = [] then 0 else (case py_int s of None \<Rightarrow> 0 | Some n \<Rightarrow> n)))"

text \<open>The six window bounds defined under \<open># Define windows\<close>.\<close>

record windows =
  pre_spike_start :: instant
  pre_spike_end :: instant
  spike_start :: instant
  spike_end :: instant
  post_spike_start :: instant
  post_spike_end :: instant

definition define_windows :: "instant \<Rightarrow> windows" where
  "define_windows spike_time =
     \<lparr> pre_spike_start = spike_time - minutes 10,
       pre_spike_end = spike_time - seconds 1,
       spike_start = spike_time,
       spike_end = spike_time + minutes 1 - seconds 1,
       post_spike_start = spike_time + minutes 1,
       post_spike_end = spike_time + minutes 11 \<rparr>"

text \<open>
  The dict comprehension that initialises \<open>log_counts\<close>: a repeated site name keeps its
  first position.
\<close>

fun dict_set :: "'k \<Rightarrow> 'v \<Rightarrow> ('k \<times> 'v) list \<Rightarrow> ('k \<times> 'v) list" where
  "dict_set k v [] = [(k, v)]"
| "dict_set k v ((k', v') # d) = (if k' = k then (k', v) # d else (k', v') # dict_set k v d)"

definition init_log_counts :: "site list \<Rightarrow> log_counts" where
  "init_log_counts sites =
     foldl (\<lambda>d st. dict_set (site_name st) \<lparr>before = 0, spike = 0, after = 0\<rparr> d) [] sites"

fun set_count :: "window \<Rightarrow> int \<Rightarrow> counts \<Rightarrow> counts" where
  "set_count Before v c = c\<lparr>before := v\<rparr>"
| "set_count Spike v c = c\<lparr>spike := v\<rparr>"
| "set_count After v c = c\<lparr>after := v\<rparr>"

fun get_count :: "window \<Rightarrow> counts \<Rightarrow> int" where
  "get_count Before c = before c"
| "get_count Spike c = spike c"
| "get_count After c = after c"

text \<open>\<open>log_counts[name][w] = v\<close>; \<open>None\<close> is the KeyError of a missing site name.\<close>

fun assign_cell :: "string \<Rightarrow> window \<Rightarrow> int \<Rightarrow> log_counts \<Rightarrow> log_counts option" where
  "assign_cell name w v [] = None"
| "assign_cell name w v ((k, c) # d) =
     (if k = name then Some ((k, set_count w v c) # d)
      else map_option ((#) (k, c)) (assign_cell name w v d))"

text \<open>
  One \<open>for site in sites\<close> loop; \<open>k\<close> is the number of remote calls made so far.
\<close>

fun count_pass ::
  "ssm_channel \<Rightarrow> window \<Rightarrow> instant \<Rightarrow> instant \<Rightarrow> nat \<Rightarrow> site list \<Rightarrow> log_counts \<Rightarrow> log_counts option" where
  "count_pass ssm w t0 t1 k [] d = Some d"
| "count_pass ssm w t0 t1 k (st # sts) d =
     (case assign_cell (site_name st) w (count_logs (ssm k) st t0 t1) d of
        None \<Rightarrow> None
      | Some d' \<Rightarrow> count_pass ssm w t0 t1 (Suc k) sts d')"

definition get_log_counts_for_sites :: "ssm_channel \<Rightarrow> site list \<Rightarrow> instant \<Rightarrow> log_counts option" where
  "get_log_counts_for_sites ssm sites spike_time =
     (let log_counts = init_log_counts sites;
          ws = define_windows spike_time;
          n = length sites
      in case count_pass ssm Before (pre_spike_start ws) (pre_spike_end ws) 0 sites log_counts of
           None \<Rightarrow> None
         | Some d1 \<Rightarrow>
            (case count_pass ssm Spike (spike_start ws) (spike_end ws) n sites d1 of
               None \<Rightarrow> None
             | Some d2 \<Rightarrow>
                count_pass ssm After (post_spike_start ws) (post_spike_end ws) (2 * n) sites d2))"

section \<open>\<open>fetch_logs_window\<close>\<close>

definition fetch_logs_window :: "(command \<Rightarrow> ssm_result) \<Rightarrow> string \<Rightarrow> instant \<Rightarrow> instant \<Rightarrow> string" where
  "fetch_logs_window run log_path start_time end_time =
     (let start_str = strftime_log start_time;
          end_str = strftime_log end_time;
          cmd = PrintLines start_str end_str log_path
      in case run cmd of
           Raised e \<Rightarrow> ''Error fetching logs: '' @ e
         | Invocation out \<Rightarrow>
             (let logs = py_strip (case out of None \<Rightarrow> [] | Some x \<Rightarrow> x)
              in if logs \<noteq> [] then logs else ''No logs found in the window.''))"

section \<open>One pass of the monitoring loop\<close>

text \<open>
  What a cycle reads from outside: the status triple of \<open>get_ec2_status\<close>, the list of
  \<open>get_cpu_per_minute\<close>, the list \<open>get_all_gunicorn_sites\<close> would return, and the
  remote-execution channel.
\<close>

record env =
  ec2_status :: "string \<times> string \<times> string"
  cpu_per_minute :: "datapoint list"
  all_sites :: "site list"
  ssm_client :: ssm_channel

text \<open>
  The report is a string built by appending fragments; each constructor stands for one
  fragment (all of them non-empty texts), so the empty list is the empty string
  \<open>report = ""\<close>. \<open>AccessLogCounts\<close> carries \<open>report_metrics\<close>: site, before, spike,
  after and magnitude.
\<close>

datatype report_item =
    StatusHeader string string string
  | CpuLine instant real
  | SpikeDetected instant real
  | AccessLogCounts "(string \<times> int \<times> int \<times> int \<times> int) list"
  | SpikeWebsite string int
  | DetailedLogs string string
  | NoClearSpike

text \<open>The stages a cycle runs after the metric fetch, in the order it runs them.\<close>

datatype stage =
    GetAllGunicornSites
  | GetLogCountsForSites instant
  | Attribution
  | FetchLogsWindow string instant instant

datatype cycle_error = ValueError | KeyError

definition find_log_path :: "site list \<Rightarrow> string option \<Rightarrow> string option" where
  "find_log_path sites Spike_site =
     map_option access_log_path (find (\<lambda>s. Some (site_name s) = Spike_site) sites)"

text \<open>
  The body of \<open>while True\<close> up to the report handed to the agent. \<open>Inl\<close> is an exception
  reaching the loop's \<open>except\<close>, which sends no report for the cycle.
\<close>

definition cycle :: "env \<Rightarrow> cycle_error + (report_item list \<times> stage list)" where
  "cycle e =
     (let (state, system_status, instance_status) = ec2_status e;
          cpu = cpu_per_minute e
      in if cpu = [] then Inr ([], [])
         else case py_max_key CPU cpu of
           None \<Rightarrow> Inl ValueError
         | Some sp \<Rightarrow>
            (let spike_time = Timestamp sp;
                 spike_value = CPU sp;
                 pre_spike_start_window = spike_time - minutes 10;
                 pre_spike_end_window = spike_time;
                 post_spike_start_window = spike_time;
                 post_spike_end_window = spike_time + minutes 10;
                 sites = all_sites e
             in if sites = [] then Inr ([], [GetAllGunicornSites])
                else case get_log_counts_for_sites (ssm_client e) sites spike_time of
                  None \<Rightarrow> Inl KeyError
                | Some log_counts \<Rightarrow>
                   (let (Spike_site, max_spike) = attribute log_counts;
                        report_metrics =
                          map (\<lambda>(name, c). (name, before c, spike c, after c, site_spike c)) log_counts;
                        Spike_log_path = find_log_path sites Spike_site;
                        report =
                          [StatusHeader state system_status instance_status]
                          @ map (\<lambda>dp. CpuLine (Timestamp dp) (CPU dp)) cpu
                          @ [SpikeDetected spike_time spike_value, AccessLogCounts report_metrics];
                        stages = [GetAllGunicornSites, GetLogCountsForSites spike_time, Attribution]
                    in case (Spike_site, Spike_log_path) of
                         (Some name, Some path) \<Rightarrow>
                           if name \<noteq> [] \<and> path \<noteq> [] then
                             (let logs_from_Spike =
                                    fetch_logs_window (ssm_client e (3 * length sites)) path
                                      pre_spike_start_window post_spike_end_window
                              in Inr (report @ [SpikeWebsite name max_spike, DetailedLogs name logs_from_Spike],
                                      stages @ [FetchLogsWindow path pre_spike_start_window post_spike_end_window]))
                           else Inr (report @ [NoClearSpike], stages)
                       | _ \<Rightarrow> Inr (report @ [NoClearSpike], stages))))"

section \<open>Notions used to state the properties\<close>

text \<open>The report a cycle hands to the agent and the stages it ran, when it completes.\<close>

definition report_sent :: "env \<Rightarrow> report_item list option" where
  "report_sent e = (case cycle e of Inl err \<Rightarrow> None | Inr (report, stages) \<Rightarrow> Some report)"

definition stages_run :: "env \<Rightarrow> stage list option" where
  "stages_run e = (case cycle e of Inl err \<Rightarrow> None | Inr (report, stages) \<Rightarrow> Some stages)"

text \<open>One cell of \<open>log_counts\<close>: \<open>log_counts[name][w]\<close>, \<open>None\<close> when the site has no entry.\<close>

definition cell :: "log_counts \<Rightarrow> string \<Rightarrow> window \<Rightarrow> int option" where
  "cell lc name w = map_option (get_count w) (map_of lc name)"

text \<open>
  The bounds of each counting window, and the number of the remote call that counts
  window \<open>w\<close> for the \<open>i\<close>-th of \<open>n\<close> sites (the three loops run one after the other).
\<close>

fun bounds :: "windows \<Rightarrow> window \<Rightarrow> instant \<times> instant" where
  "bounds ws Before = (pre_spike_start ws, pre_spike_end ws)"
| "bounds ws Spike = (spike_start ws, spike_end ws)"
| "bounds ws After = (post_spike_start ws, post_spike_end ws)"

fun call_index :: "nat \<Rightarrow> window \<Rightarrow> nat \<Rightarrow> nat" where
  "call_index n Before i = i"
| "call_index n Spike i = n + i"
| "call_index n After i = 2 * n + i"

definition count_command :: "site \<Rightarrow> instant \<times> instant \<Rightarrow> command" where
  "count_command st b = CountLines (strftime_log (fst b)) (strftime_log (snd b)) (access_log_path st)"

text \<open>
  A failed count operation: the call raised (transport error), the command ran where
  the log file is missing, or the output is blank or not an integer.
\<close>

definition count_failure :: "command \<Rightarrow> ssm_result \<Rightarrow> bool" where
  "count_failure cmd r =
     (case r of
        Raised e \<Rightarrow> True
      | Invocation out \<Rightarrow>
          (case out of
             None \<Rightarrow> False
           | Some s \<Rightarrow> s = run_command Map.empty cmd \<or> py_int (py_strip s) = None))"

text \<open>
  The value the loop of \<open>count_pass\<close> leaves in the cell of \<open>name\<close>: the count of the
  last site in the list that bears the name, if any.
\<close>

fun latest_count :: "ssm_channel \<Rightarrow> instant \<Rightarrow> instant \<Rightarrow> nat \<Rightarrow> site list \<Rightarrow> string \<Rightarrow> int option" where
  "latest_count chan t0 t1 k [] name = None"
| "latest_count chan t0 t1 k (st # sts) name =
     (case latest_count chan t0 t1 (Suc k) sts name of
        Some v \<Rightarrow> Some v
      | None \<Rightarrow> if site_name st = name then Some (count_logs (chan k) st t0 t1) else None)"

text \<open>
  An access-log line written at instant \<open>t\<close> in the common log format, whose fourth
  blank-separated field is \<open>[dd/Mon/YYYY:HH:MM:SS\<close>, and the membership of an instant in
  the closed interval of a window.
\<close>

definition access_log_line :: "instant \<Rightarrow> string" where
  "access_log_line t = ''10.0.0.7 - - ['' @ strftime_log t @ '' +0000] GET /cart 200 512''"

definition in_window :: "instant \<times> instant \<Rightarrow> instant \<Rightarrow> bool" where
  "in_window b t \<longleftrightarrow> fst b \<le> t \<and> t \<le> snd b"

section \<open>Example inputs\<close>

text \<open>
  The end-to-end scenario: three datapoints with the spike of 85 at 2026-11-03 10:05:00
  (instant 1793700300), two sites X and Y, and a channel that answers the six count
  calls with 3, 2 (before), 40, 3 (spike), 4, 2 (after) and the fetch with one line.
\<close>

definition site_X :: site where
  "site_X = \<lparr>site_name = ''X'', access_log_path = ''/var/www/X/logs/access.log''\<rparr>"

definition site_Y :: site where
  "site_Y = \<lparr>site_name = ''Y'', access_log_path = ''/var/www/Y/logs/access.log''\<rparr>"

definition scenario_ssm :: ssm_channel where
  "scenario_ssm k cmd =
     (if k < 7 then Invocation (Some ([''3'', ''2'', ''40'', ''3'', ''4'', ''2'', ''GET /cart''] ! k))
      else Raised ''InvocationDoesNotExist'')"

definition scenario :: env where
  "scenario =
     \<lparr> ec2_status = (''running'', ''ok'', ''ok''),
       cpu_per_minute = [\<lparr>Timestamp = 1793700240, CPU = 10\<rparr>,
                         \<lparr>Timestamp = 1793700300, CPU = 85\<rparr>,
                         \<lparr>Timestamp = 1793700360, CPU = 20\<rparr>],
       all_sites = [site_X, site_Y],
       ssm_client = scenario_ssm \<rparr>"

text \<open>Variants: every count is 5; the spike count of Y (call number 3) raises.\<close>

definition scenario_flat :: env where
  "scenario_flat = scenario\<lparr>ssm_client := (\<lambda>k cmd. Invocation (Some ''5''))\<rparr>"

definition scenario_y_fails :: env where
  "scenario_y_fails =
     scenario\<lparr>ssm_client := (\<lambda>k cmd. if k = 3 then Raised ''TimeoutError'' else scenario_ssm k cmd)\<rparr>"


definition scenario_twice :: env where
  "scenario_twice =
     scenario\<lparr>all_sites := [site_X, site_X],
              ssm_client := (\<lambda>k cmd. if k = 0 then Raised ''TimeoutError'' else Invocation (Some ''7''))\<rparr>"


text \<open>A host with one site whose access log holds the given lines.\<close>

definition site_shop :: site where
  "site_shop = \<lparr>site_name = ''shop'', access_log_path = ''/var/www/shop/logs/access.log''\<rparr>"

definition shop_host :: "string list \<Rightarrow> string \<Rightarrow> string list option" where
  "shop_host ls = map_of [(''/var/www/shop/logs/access.log'', ls)]"

section \<open>Auxiliary facts\<close>

subsection \<open>The scans of \<open>max\<close> and of the attribution loop\<close>

lemma foldl_py_max_step:
  "\<exists>i<length (x # xs). foldl (py_max_step key) x xs = (x # xs) ! i
     \<and> (\<forall>j<length (x # xs). key ((x # xs) ! j) \<le> key ((x # xs) ! i))
     \<and> (\<forall>j<i. key ((x # xs) ! j) < key ((x # xs) ! i))"
proof (induction xs rule: rev_induct)
  case Nil
  show ?case by simp
next
  case (snoc y ys)
  then obtain i where i: "i < length (x # ys)"
    and best: "foldl (py_max_step key) x ys = (x # ys) ! i"
    and ge: "\<forall>j<length (x # ys). key ((x # ys) ! j) \<le> key ((x # ys) ! i)"
    and first: "\<forall>j<i. key ((x # ys) ! j) < key ((x # ys) ! i)"
    by blast
  have app: "x # ys @ [y] = (x # ys) @ [y]" by simp
  show ?case
  proof (cases "key y > key ((x # ys) ! i)")
    case True
    have "foldl (py_max_step key) x (ys @ [y]) = y"
      using True best by (simp add: py_max_step_def)
    moreover have "\<forall>j<length (x # ys). key ((x # ys) ! j) < key y"
      using ge True by (meson le_less_trans)
    ultimately show ?thesis
      unfolding app
      by (intro exI [of _ "length (x # ys)"])
         (auto simp: nth_append less_Suc_eq less_imp_le simp del: append_Cons)
  next
    case False
    have "foldl (py_max_step key) x (ys @ [y]) = (x # ys) ! i"
      using False best by (simp add: py_max_step_def)
    then show ?thesis
      unfolding app using False i ge first
      by (intro exI [of _ i])
         (auto simp: nth_append less_Suc_eq not_less simp del: append_Cons)
  qed
qed

lemma site_spike_nonneg: "0 \<le> site_spike c"
  by (simp add: site_spike_def Let_def)

lemma attribute_snoc: "attribute (lc @ [x]) = attribute_step (attribute lc) x"
  by (simp add: attribute_def)

text \<open>
  The loop ends either with no site and no site of positive magnitude, or with the
  first site of the largest magnitude, which is positive.
\<close>

lemma attribute_cases:
  "(attribute lc = (None, 0) \<and> (\<forall>j<length lc. site_spike (snd (lc ! j)) \<le> 0))
   \<or> (\<exists>i<length lc. attribute lc = (Some (fst (lc ! i)), site_spike (snd (lc ! i)))
         \<and> 0 < site_spike (snd (lc ! i))
         \<and> (\<forall>j<length lc. site_spike (snd (lc ! j)) \<le> site_spike (snd (lc ! i)))
         \<and> (\<forall>j<i. site_spike (snd (lc ! j)) < site_spike (snd (lc ! i))))"
proof (induction lc rule: rev_induct)
  case Nil
  show ?case by (simp add: attribute_def)
next
  case (snoc x lc)
  from snoc consider
    (none) "attribute lc = (None, 0)" "\<forall>j<length lc. site_spike (snd (lc ! j)) \<le> 0"
    | (some) i where "i < length lc" "attribute lc = (Some (fst (lc ! i)), site_spike (snd (lc ! i)))"
        "0 < site_spike (snd (lc ! i))"
        "\<forall>j<length lc. site_spike (snd (lc ! j)) \<le> site_spike (snd (lc ! i))"
        "\<forall>j<i. site_spike (snd (lc ! j)) < site_spike (snd (lc ! i))"
    by blast
  then show ?case
  proof cases
    case none
    show ?thesis
    proof (cases "0 < site_spike (snd x)")
      case True
      have "attribute (lc @ [x]) = (Some (fst x), site_spike (snd x))"
        using True none(1) by (simp add: attribute_snoc attribute_step_def)
      moreover have "\<forall>j<length lc. site_spike (snd (lc ! j)) < site_spike (snd x)"
        using none(2) True by fastforce
      ultimately show ?thesis
        using True
        by (intro disjI2 exI [of _ "length lc"]) (auto simp: nth_append less_Suc_eq less_imp_le)
    next
      case False
      have "attribute (lc @ [x]) = (None, 0)"
        using False none(1) by (simp add: attribute_snoc attribute_step_def)
      then show ?thesis
        using False none(2)
        by (intro disjI1) (auto simp: nth_append less_Suc_eq)
    qed
  next
    case some
    show ?thesis
    proof (cases "site_spike (snd (lc ! i)) < site_spike (snd x)")
      case True
      have "attribute (lc @ [x]) = (Some (fst x), site_spike (snd x))"
        using True some(2) by (simp add: attribute_snoc attribute_step_def)
      moreover have "\<forall>j<length lc. site_spike (snd (lc ! j)) < site_spike (snd x)"
        using some(4) True by fastforce
      moreover have "0 < site_spike (snd x)" using True some(3) by simp
      ultimately show ?thesis
        by (intro disjI2 exI [of _ "length lc"]) (auto simp: nth_append less_Suc_eq less_imp_le)
    next
      case False
      have "attribute (lc @ [x]) = (Some (fst (lc ! i)), site_spike (snd (lc ! i)))"
        using False some(2) by (simp add: attribute_snoc attribute_step_def)
      then show ?thesis
        using False some(1,3,4,5)
        by (intro disjI2 exI [of _ i]) (auto simp: nth_append less_Suc_eq)
    qed
  qed
qed

subsection \<open>The dictionary of counts\<close>

lemma get_count_set_count:
  "get_count w' (set_count w v c) = (if w' = w then v else get_count w' c)"
  by (cases w; cases w') simp_all

lemma cell_Cons:
  "cell ((k0, c) # d) k w = (if k = k0 then Some (get_count w c) else cell d k w)"
  by (simp add: cell_def)

lemma assign_cell_Some:
  "name \<in> fst ` set d \<Longrightarrow> \<exists>d'. assign_cell name w v d = Some d'"
proof (induction d)
  case Nil
  then show ?case by simp
next
  case (Cons a d)
  obtain k0 c where a: "a = (k0, c)" by (cases a)
  show ?case
  proof (cases "k0 = name")
    case True
    then show ?thesis using a by simp
  next
    case False
    with Cons.prems a have "name \<in> fst ` set d" by auto
    from Cons.IH [OF this] show ?thesis using a False by auto
  qed
qed

lemma assign_cell_keys:
  "assign_cell name w v d = Some d' \<Longrightarrow> map fst d' = map fst d"
  by (induction d arbitrary: d') (auto split: if_splits)

lemma assign_cell_cell:
  "assign_cell name w v d = Some d' \<Longrightarrow>
   cell d' k w' = (if k = name \<and> w' = w then Some v else cell d k w')"
proof (induction d arbitrary: d')
  case Nil
  then show ?case by simp
next
  case (Cons a d)
  obtain k0 c where a: "a = (k0, c)" by (cases a)
  show ?case
  proof (cases "k0 = name")
    case True
    with Cons.prems a have "d' = (k0, set_count w v c) # d" by simp
    then show ?thesis using True a by (simp add: cell_Cons get_count_set_count)
  next
    case False
    with Cons.prems a obtain d1 where d1: "assign_cell name w v d = Some d1" "d' = (k0, c) # d1"
      by auto
    have "cell d1 k w' = (if k = name \<and> w' = w then Some v else cell d k w')"
      by (rule Cons.IH [OF d1(1)])
    then show ?thesis using d1(2) False a by (auto simp: cell_Cons)
  qed
qed

lemma latest_count_None:
  "latest_count chan t0 t1 k sts name = None \<longleftrightarrow> name \<notin> site_name ` set sts"
proof (induction sts arbitrary: k)
  case Nil
  show ?case by simp
next
  case (Cons st sts)
  have ih: "(latest_count chan t0 t1 (Suc k) sts name = None) = (name \<notin> site_name ` set sts)"
    by (rule Cons.IH)
  show ?case
    by (cases "latest_count chan t0 t1 (Suc k) sts name") (use ih in auto)
qed

lemma count_pass_cells:
  "site_name ` set sts \<subseteq> fst ` set d \<Longrightarrow>
   \<exists>d'. count_pass chan w t0 t1 k sts d = Some d' \<and> map fst d' = map fst d
      \<and> (\<forall>name w'. cell d' name w' =
            (if w' = w then (case latest_count chan t0 t1 k sts name of
                               Some v \<Rightarrow> Some v | None \<Rightarrow> cell d name w)
             else cell d name w'))"
proof (induction sts arbitrary: k d)
  case Nil
  show ?case by simp
next
  case (Cons st sts)
  let ?v = "count_logs (chan k) st t0 t1"
  from Cons.prems have "site_name st \<in> fst ` set d" by simp
  then obtain d1 where d1: "assign_cell (site_name st) w ?v d = Some d1"
    using assign_cell_Some by blast
  have keys1: "map fst d1 = map fst d" using d1 by (rule assign_cell_keys)
  have "fst ` set d1 = fst ` set d"
    using keys1 by (metis list.set_map)
  with Cons.prems have sub: "site_name ` set sts \<subseteq> fst ` set d1" by simp
  from Cons.IH [OF sub, of "Suc k"] obtain d' where
    d': "count_pass chan w t0 t1 (Suc k) sts d1 = Some d'" "map fst d' = map fst d1"
    and cells: "\<forall>name w'. cell d' name w' =
            (if w' = w then (case latest_count chan t0 t1 (Suc k) sts name of
                               Some v \<Rightarrow> Some v | None \<Rightarrow> cell d1 name w)
             else cell d1 name w')"
    by blast
  have "count_pass chan w t0 t1 k (st # sts) d = Some d'"
    using d1 d'(1) by simp
  moreover have "map fst d' = map fst d" using d'(2) keys1 by simp
  moreover have "\<forall>name w'. cell d' name w' =
            (if w' = w then (case latest_count chan t0 t1 k (st # sts) name of
                               Some v \<Rightarrow> Some v | None \<Rightarrow> cell d name w)
             else cell d name w')"
    using cells assign_cell_cell [OF d1] by (auto split: option.splits)
  ultimately show ?case by blast
qed

lemma dict_set_map_fst:
  "map fst (dict_set k v d) = (if k \<in> set (map fst d) then map fst d else map fst d @ [k])"
proof (induction d)
  case Nil
  show ?case by simp
next
  case (Cons a d)
  obtain k0 v0 where a: "a = (k0, v0)" by (cases a)
  show ?case using Cons.IH a by (cases "k0 = k") auto
qed

lemma dict_set_keys: "fst ` set (dict_set k v d) = insert k (fst ` set d)"
proof -
  have "set (map fst (dict_set k v d)) = insert k (set (map fst d))"
    unfolding dict_set_map_fst by auto
  then show ?thesis by simp
qed

lemma dict_set_distinct: "distinct (map fst d) \<Longrightarrow> distinct (map fst (dict_set k v d))"
  unfolding dict_set_map_fst by auto

lemma map_of_dict_set: "map_of (dict_set k v d) k' = (if k' = k then Some v else map_of d k')"
  by (induction d) auto

lemma foldl_dict_set_keys:
  "fst ` set (foldl (\<lambda>d st. dict_set (f st) z d) d sts) = fst ` set d \<union> f ` set sts"
  by (induction sts arbitrary: d) (auto simp: dict_set_keys)

lemma foldl_dict_set_distinct:
  "distinct (map fst d) \<Longrightarrow> distinct (map fst (foldl (\<lambda>d st. dict_set (f st) z d) d sts))"
  by (induction sts arbitrary: d) (auto simp: dict_set_distinct)

lemma foldl_dict_set_map_of:
  "map_of (foldl (\<lambda>d st. dict_set (f st) z d) d sts) k =
     (if k \<in> f ` set sts then Some z else map_of d k)"
  by (induction sts arbitrary: d) (auto simp: map_of_dict_set)

lemma init_log_counts_keys: "fst ` set (init_log_counts sites) = site_name ` set sites"
  by (simp add: init_log_counts_def foldl_dict_set_keys)

lemma init_log_counts_distinct: "distinct (map fst (init_log_counts sites))"
  by (simp add: init_log_counts_def foldl_dict_set_distinct)

lemma init_log_counts_cell:
  "cell (init_log_counts sites) name w = (if name \<in> site_name ` set sites then Some 0 else None)"
  by (cases w) (simp_all add: init_log_counts_def cell_def foldl_dict_set_map_of)

lemma get_log_counts_cells:
  "\<exists>lc. get_log_counts_for_sites chan sites t = Some lc
      \<and> map fst lc = map fst (init_log_counts sites)
      \<and> (\<forall>name w. cell lc name w =
            latest_count chan (fst (bounds (define_windows t) w)) (snd (bounds (define_windows t) w))
              (call_index (length sites) w 0) sites name)"
proof -
  let ?ws = "define_windows t" and ?n = "length sites" and ?d0 = "init_log_counts sites"
  have s0: "site_name ` set sites \<subseteq> fst ` set ?d0" by (simp add: init_log_counts_keys)
  from count_pass_cells [OF s0, of chan Before "pre_spike_start ?ws" "pre_spike_end ?ws" 0]
  obtain d1 where d1: "count_pass chan Before (pre_spike_start ?ws) (pre_spike_end ?ws) 0 sites ?d0 = Some d1"
      "map fst d1 = map fst ?d0"
    and c1: "\<forall>name w'. cell d1 name w' =
            (if w' = Before then (case latest_count chan (pre_spike_start ?ws) (pre_spike_end ?ws) 0 sites name of
                               Some v \<Rightarrow> Some v | None \<Rightarrow> cell ?d0 name Before)
             else cell ?d0 name w')"
    by blast
  have s1: "site_name ` set sites \<subseteq> fst ` set d1"
    using s0 d1(2) by (metis list.set_map)
  from count_pass_cells [OF s1, of chan Spike "spike_start ?ws" "spike_end ?ws" ?n]
  obtain d2 where d2: "count_pass chan Spike (spike_start ?ws) (spike_end ?ws) ?n sites d1 = Some d2"
      "map fst d2 = map fst d1"
    and c2: "\<forall>name w'. cell d2 name w' =
            (if w' = Spike then (case latest_count chan (spike_start ?ws) (spike_end ?ws) ?n sites name of
                               Some v \<Rightarrow> Some v | None \<Rightarrow> cell d1 name Spike)
             else cell d1 name w')"
    by blast
  have s2: "site_name ` set sites \<subseteq> fst ` set d2"
    using s1 d2(2) by (metis list.set_map)
  from count_pass_cells [OF s2, of chan After "post_spike_start ?ws" "post_spike_end ?ws" "2 * ?n"]
  obtain d3 where d3: "count_pass chan After (post_spike_start ?ws) (post_spike_end ?ws) (2 * ?n) sites d2 = Some d3"
      "map fst d3 = map fst d2"
    and c3: "\<forall>name w'. cell d3 name w' =
            (if w' = After then (case latest_count chan (post_spike_start ?ws) (post_spike_end ?ws) (2 * ?n) sites name of
                               Some v \<Rightarrow> Some v | None \<Rightarrow> cell d2 name After)
             else cell d2 name w')"
    by blast
  have res: "get_log_counts_for_sites chan sites t = Some d3"
    using d1(1) d2(1) d3(1) by (simp add: get_log_counts_for_sites_def Let_def)
  have keys: "map fst d3 = map fst ?d0" using d1(2) d2(2) d3(2) by simp
  have cells: "cell d3 name w =
            latest_count chan (fst (bounds ?ws w)) (snd (bounds ?ws w)) (call_index ?n w 0) sites name"
    for name w
  proof (cases "name \<in> site_name ` set sites")
    case True
    then obtain v where "latest_count chan (fst (bounds ?ws w)) (snd (bounds ?ws w)) (call_index ?n w 0) sites name = Some v"
      using latest_count_None [of chan _ _ _ sites name] by (metis not_Some_eq)
    then show ?thesis
      using c1 c2 c3 by (cases w) simp_all
  next
    case False
    then have "latest_count chan t0 t1 k sites name = None" for t0 t1 k
      by (simp add: latest_count_None)
    then show ?thesis
      using c1 c2 c3 False by (cases w) (simp_all add: init_log_counts_cell)
  qed
  show ?thesis using res keys cells by blast
qed

lemma latest_count_last:
  "i < length sts \<Longrightarrow> \<forall>j<length sts. i < j \<longrightarrow> site_name (sts ! j) \<noteq> site_name (sts ! i) \<Longrightarrow>
   latest_count chan t0 t1 k sts (site_name (sts ! i)) = Some (count_logs (chan (k + i)) (sts ! i) t0 t1)"
proof (induction sts arbitrary: i k)
  case Nil
  then show ?case by simp
next
  case (Cons st sts)
  show ?case
  proof (cases i)
    case 0
    have "site_name st \<notin> site_name ` set sts"
    proof
      assume "site_name st \<in> site_name ` set sts"
      then obtain j where "j < length sts" "site_name (sts ! j) = site_name st"
        by (metis imageE in_set_conv_nth)
      then show False using Cons.prems(2) 0 by (auto dest: spec [of _ "Suc j"])
    qed
    then have "latest_count chan t0 t1 (Suc k) sts (site_name st) = None"
      by (simp add: latest_count_None)
    then show ?thesis using 0 by simp
  next
    case (Suc i')
    have i': "i' < length sts" using Cons.prems(1) Suc by simp
    have "\<forall>j<length sts. i' < j \<longrightarrow> site_name (sts ! j) \<noteq> site_name (sts ! i')"
    proof (intro allI impI)
      fix j assume "j < length sts" "i' < j"
      then show "site_name (sts ! j) \<noteq> site_name (sts ! i')"
        using Cons.prems(2) Suc by (auto dest: spec [of _ "Suc j"])
    qed
    from Cons.IH [OF i' this, of "Suc k"] show ?thesis using Suc by simp
  qed
qed

lemma latest_count_cong:
  "\<forall>j<length sts. site_name (sts ! j) = name \<longrightarrow> chan' (k + j) = chan (k + j) \<Longrightarrow>
   latest_count chan' t0 t1 k sts name = latest_count chan t0 t1 k sts name"
proof (induction sts arbitrary: k)
  case Nil
  show ?case by simp
next
  case (Cons st sts)
  have "\<forall>j<length sts. site_name (sts ! j) = name \<longrightarrow> chan' (Suc k + j) = chan (Suc k + j)"
  proof (intro allI impI)
    fix j assume "j < length sts" "site_name (sts ! j) = name"
    then show "chan' (Suc k + j) = chan (Suc k + j)"
      using Cons.prems by (auto dest: spec [of _ "Suc j"])
  qed
  from Cons.IH [OF this] have ih: "latest_count chan' t0 t1 (Suc k) sts name = latest_count chan t0 t1 (Suc k) sts name" .
  have "site_name st = name \<Longrightarrow> chan' k = chan k"
    using Cons.prems by (auto dest: spec [of _ 0])
  then show ?case using ih by (auto split: option.splits)
qed

subsection \<open>The cycle\<close>

lemma py_max_key_Some_nonempty: "py_max_key key xs = Some y \<Longrightarrow> xs \<noteq> []"
  by (cases xs) auto

lemma py_max_key_nonempty: "xs \<noteq> [] \<Longrightarrow> \<exists>y. py_max_key key xs = Some y"
  by (cases xs) auto

text \<open>The KeyError of \<open>assign_cell\<close> never occurs: every site name was initialised.\<close>

lemma get_log_counts_total: "\<exists>lc. get_log_counts_for_sites chan sites t = Some lc"
  using get_log_counts_cells [of chan sites t] by blast

lemma get_log_counts_keys:
  assumes "get_log_counts_for_sites chan sites t = Some lc"
  shows "fst ` set lc = site_name ` set sites" and "distinct (map fst lc)"
proof -
  from get_log_counts_cells [of chan sites t] assms
  have k: "map fst lc = map fst (init_log_counts sites)" by auto
  have "set (map fst lc) = set (map fst (init_log_counts sites))" using k by simp
  then show "fst ` set lc = site_name ` set sites"
    by (simp add: init_log_counts_keys)
  show "distinct (map fst lc)" using k init_log_counts_distinct by simp
qed

lemma find_log_path_Some:
  "name \<in> site_name ` set sites \<Longrightarrow>
   \<exists>st\<in>set sites. site_name st = name \<and> find_log_path sites (Some name) = Some (access_log_path st)"
proof (induction sites)
  case Nil
  then show ?case by simp
next
  case (Cons a sites)
  show ?case
  proof (cases "site_name a = name")
    case True
    then show ?thesis by (simp add: find_log_path_def)
  next
    case False
    with Cons.prems have "name \<in> site_name ` set sites" by auto
    from Cons.IH [OF this] show ?thesis using False by (auto simp: find_log_path_def)
  qed
qed

lemma attributed_site_discovered:
  assumes "get_log_counts_for_sites chan sites t = Some lc"
    and "fst (attribute lc) = Some name"
  shows "\<exists>st\<in>set sites. site_name st = name
           \<and> find_log_path sites (Some name) = Some (access_log_path st)"
proof -
  from attribute_cases [of lc] assms(2)
  obtain i where "i < length lc" "name = fst (lc ! i)" by auto
  then have "name \<in> fst ` set lc" by (metis imageI nth_mem)
  then have "name \<in> site_name ` set sites"
    using get_log_counts_keys(1) [OF assms(1)] by simp
  then show ?thesis by (rule find_log_path_Some)
qed

text \<open>No exception reaches the loop's \<open>except\<close>: every cycle hands over a report.\<close>

lemma cycle_completes: "\<exists>report stages. cycle e = Inr (report, stages)"
proof (cases "cpu_per_minute e = []")
  case True
  then show ?thesis by (simp add: cycle_def split: prod.splits)
next
  case False
  then obtain sp where sp: "py_max_key CPU (cpu_per_minute e) = Some sp"
    using py_max_key_nonempty by blast
  obtain lc where lc: "get_log_counts_for_sites (ssm_client e) (all_sites e) (Timestamp sp) = Some lc"
    using get_log_counts_total by blast
  show ?thesis using False sp lc
    by (simp add: cycle_def Let_def split: prod.splits option.splits)
qed

lemma cycle_reports_counts:
  assumes "py_max_key CPU (cpu_per_minute e) = Some sp" "all_sites e \<noteq> []"
    and "get_log_counts_for_sites (ssm_client e) (all_sites e) (Timestamp sp) = Some lc"
  shows "\<exists>report. report_sent e = Some report
            \<and> AccessLogCounts (map (\<lambda>(name, c). (name, before c, spike c, after c, site_spike c)) lc)
                \<in> set report"
proof -
  have ne: "cpu_per_minute e \<noteq> []" using assms(1) by (rule py_max_key_Some_nonempty)
  show ?thesis using ne assms
    by (simp add: report_sent_def cycle_def Let_def split: prod.splits option.splits)
qed

subsection \<open>Failed count operations\<close>

lemma run_command_missing_file:
  "run_command Map.empty (CountLines a b p) = ''0'' @ [CHR 0x0A]"
  by (simp add: show_nat.simps digit_char_def)

lemma py_int_zero_line: "py_strip (''0'' @ [CHR 0x0A]) = ''0''" "py_int ''0'' = Some 0"
  by (simp_all add: py_strip_def py_int_def is_py_space_def is_int_space_def is_digit_def)

lemma count_logs_failure:
  assumes "count_failure (count_command st (t0, t1)) (run (count_command st (t0, t1)))"
  shows "count_logs run st t0 t1 = 0"
proof (cases "run (count_command st (t0, t1))")
  case (Raised x)
  then show ?thesis by (simp add: count_logs_def count_command_def)
next
  case (Invocation out)
  show ?thesis
  proof (cases out)
    case None
    with assms Invocation show ?thesis by (simp add: count_failure_def)
  next
    case (Some s)
    with assms Invocation consider
      (missing) "s = run_command Map.empty (count_command st (t0, t1))"
      | (garbled) "py_int (py_strip s) = None"
      by (auto simp: count_failure_def)
    then show ?thesis
    proof cases
      case missing
      then have "s = ''0'' @ [CHR 0x0A]"
        by (simp only: count_command_def run_command_missing_file)
      then show ?thesis using Invocation Some
        by (simp add: count_logs_def count_command_def py_int_zero_line del: append.simps)
    next
      case garbled
      then show ?thesis using Invocation Some
        by (simp add: count_logs_def count_command_def Let_def)
    qed
  qed
qed

text \<open>
  Output wrapped in the no-break space and the next-line character is stripped and read
  as the number it holds.
\<close>

lemma count_logs_unicode_spaces:
  "count_logs (\<lambda>cmd. Invocation (Some [CHR 0xA0, CHR ''5'', CHR 0x85])) st t0 t1 = 5"
  by (simp add: count_logs_def py_strip_def py_int_def is_py_space_def is_int_space_def is_digit_def)

text \<open>A text of more than 4300 digits is never read as a number.\<close>

lemma py_digits_limit:
  "py_digits prev n acc cs = Some v \<Longrightarrow> n + length (filter is_digit cs) \<le> 4300"
proof (induction cs arbitrary: prev n acc)
  case Nil
  then show ?case by (simp split: if_splits)
next
  case (Cons c cs)
  show ?case
  proof (cases "is_digit c")
    case True
    with Cons.prems have "py_digits True (Suc n) (10 * acc + (int (of_char c) - 48)) cs = Some v"
      by simp
    from Cons.IH [OF this] show ?thesis using True by simp
  next
    case False
    with Cons.prems have "py_digits False n acc cs = Some v"
      by (simp split: if_splits)
    from Cons.IH [OF this] show ?thesis using False by simp
  qed
qed

lemma call_index_add: "call_index n w 0 + i = call_index n w i"
  by (cases w) simp_all

lemma call_index_inj:
  "i < n \<Longrightarrow> j < n \<Longrightarrow> call_index n w' j = call_index n w i \<Longrightarrow> w' = w \<and> j = i"
  by (cases w; cases w') simp_all

subsection \<open>The window bounds\<close>

lemma define_windows_bounds:
  "pre_spike_start (define_windows t) = t - 600"
  "pre_spike_end (define_windows t) = t - 1"
  "spike_start (define_windows t) = t"
  "spike_end (define_windows t) = t + 59"
  "post_spike_start (define_windows t) = t + 60"
  "post_spike_end (define_windows t) = t + 660"
  by (simp_all add: define_windows_def minutes_def seconds_def)

text \<open>
  The three closed intervals are contiguous and disjoint: together they are
  \<open>[t - 600, t + 660]\<close>, and no instant lies in two of them.
\<close>

lemma define_windows_partition:
  "{pre_spike_start (define_windows t)..pre_spike_end (define_windows t)}
     \<union> {spike_start (define_windows t)..spike_end (define_windows t)}
     \<union> {post_spike_start (define_windows t)..post_spike_end (define_windows t)}
   = {t - 600..t + 660}"
  "{pre_spike_start (define_windows t)..pre_spike_end (define_windows t)}
     \<inter> {spike_start (define_windows t)..spike_end (define_windows t)} = {}"
  "{spike_start (define_windows t)..spike_end (define_windows t)}
     \<inter> {post_spike_start (define_windows t)..post_spike_end (define_windows t)} = {}"
  "{pre_spike_start (define_windows t)..pre_spike_end (define_windows t)}
     \<inter> {post_spike_start (define_windows t)..post_spike_end (define_windows t)} = {}"
  by (auto simp: define_windows_bounds)

lemma spike_start_in_spike_interval_only:
  "in_window (bounds (define_windows t) Spike) (spike_start (define_windows t))"
  "\<not> in_window (bounds (define_windows t) Before) (spike_start (define_windows t))"
  "\<not> in_window (bounds (define_windows t) After) (spike_start (define_windows t))"
  by (simp_all add: in_window_def define_windows_bounds)

section \<open>The claims\<close>

subsection \<open>C1: spike attribution\<close>

text \<open>
  C1 (as amended). The magnitude of a service is the largest of \<open>|spike - before|\<close>,
  \<open>|after - spike|\<close> and \<open>|after - before|\<close>. Whenever some service has a positive
  magnitude, the loop returns the first service, in iteration order, whose magnitude is
  the largest of all, together with that magnitude. (When no magnitude is positive it
  returns no service: see the counterexample below and C6.)
\<close>

theorem attribution_first_largest_positive:
  assumes "\<exists>j<length lc. 0 < site_spike (snd (lc ! j))"
  shows "(\<forall>c. site_spike c = Max {\<bar>spike c - before c\<bar>, \<bar>after c - spike c\<bar>, \<bar>after c - before c\<bar>})
       \<and> (\<exists>i<length lc. attribute lc = (Some (fst (lc ! i)), site_spike (snd (lc ! i)))
             \<and> (\<forall>j<length lc. site_spike (snd (lc ! j)) \<le> site_spike (snd (lc ! i)))
             \<and> (\<forall>j<i. site_spike (snd (lc ! j)) < site_spike (snd (lc ! i))))"
proof -
  have "site_spike c = Max {\<bar>spike c - before c\<bar>, \<bar>after c - spike c\<bar>, \<bar>after c - before c\<bar>}" for c
    by (simp add: site_spike_def Let_def max.commute max.left_commute)
  moreover have "\<not> (\<forall>j<length lc. site_spike (snd (lc ! j)) \<le> 0)"
    using assms by (auto simp: not_le)
  then have "\<exists>i<length lc. attribute lc = (Some (fst (lc ! i)), site_spike (snd (lc ! i)))
             \<and> (\<forall>j<length lc. site_spike (snd (lc ! j)) \<le> site_spike (snd (lc ! i)))
             \<and> (\<forall>j<i. site_spike (snd (lc ! j)) < site_spike (snd (lc ! i)))"
    using attribute_cases [of lc] by blast
  ultimately show ?thesis by blast
qed

text \<open>
  The theorem at the counts A = (10, 10, 10), B = (5, 50, 6): the hypothesis holds (B has
  magnitude 45), and the loop attributes B with magnitude 45.
\<close>

theorem attribution_first_largest_positive_witness:
  "attribute [(''A'', \<lparr>before = 10, spike = 10, after = 10\<rparr>),
              (''B'', \<lparr>before = 5, spike = 50, after = 6\<rparr>)] = (Some ''B'', 45)
   \<and> (\<exists>i<length [(''A'', \<lparr>before = 10, spike = 10, after = 10\<rparr>),
                    (''B'', \<lparr>before = 5, spike = 50, after = 6\<rparr>)].
         attribute [(''A'', \<lparr>before = 10, spike = 10, after = 10\<rparr>),
                    (''B'', \<lparr>before = 5, spike = 50, after = 6\<rparr>)]
           = (Some (fst ([(''A'', \<lparr>before = 10, spike = 10, after = 10\<rparr>),
                          (''B'', \<lparr>before = 5, spike = 50, after = 6\<rparr>)] ! i)),
              site_spike (snd ([(''A'', \<lparr>before = 10, spike = 10, after = 10\<rparr>),
                                (''B'', \<lparr>before = 5, spike = 50, after = 6\<rparr>)] ! i))))"
proof -
  let ?lc = "[(''A'', \<lparr>before = 10, spike = 10, after = 10\<rparr>),
              (''B'', \<lparr>before = 5, spike = 50, after = 6\<rparr>)]"
  have "0 < site_spike (snd (?lc ! 1))" by (simp add: site_spike_def)
  then have h: "\<exists>j<length ?lc. 0 < site_spike (snd (?lc ! j))"
    by (intro exI [of _ 1]) simp
  have v: "attribute ?lc = (Some ''B'', 45)"
    by (simp add: attribute_def attribute_step_def site_spike_def)
  from attribution_first_largest_positive [OF h] v show ?thesis by blast
qed

text \<open>
  C1 as stated fails where every magnitude is 0: with the single service A = (10, 10, 10)
  the service of the largest magnitude is A, and the loop returns no service.
\<close>

theorem attribution_all_zero_counterexample:
  "site_spike \<lparr>before = 10, spike = 10, after = 10\<rparr> = 0
   \<and> attribute [(''A'', \<lparr>before = 10, spike = 10, after = 10\<rparr>)] = (None, 0)"
  by (simp add: attribute_def attribute_step_def site_spike_def)

subsection \<open>C2: spike detection\<close>

text \<open>
  C2. On a non-empty metric sequence the detector returns a point of the sequence whose
  value is at least that of every point, and every point before it has a strictly
  smaller value: it is the first point of maximal value.
\<close>

theorem spike_detector_first_maximum:
  assumes "cpu \<noteq> []"
  shows "\<exists>i<length cpu. py_max_key CPU cpu = Some (cpu ! i)
           \<and> (\<forall>j<length cpu. CPU (cpu ! j) \<le> CPU (cpu ! i))
           \<and> (\<forall>j<i. CPU (cpu ! j) < CPU (cpu ! i))"
proof -
  from assms obtain x xs where c: "cpu = x # xs"
    by (cases cpu) auto
  show ?thesis
    unfolding c py_max_key.simps using foldl_py_max_step [of x xs CPU] by simp
qed

text \<open>The theorem on a sequence where two points share the maximum 85: the first wins.\<close>

theorem spike_detector_first_maximum_witness:
  "py_max_key CPU [\<lparr>Timestamp = 0, CPU = 10\<rparr>, \<lparr>Timestamp = 60, CPU = 85\<rparr>,
                   \<lparr>Timestamp = 120, CPU = 85\<rparr>, \<lparr>Timestamp = 180, CPU = 20\<rparr>]
     = Some \<lparr>Timestamp = 60, CPU = 85\<rparr>
   \<and> (\<exists>i<length [\<lparr>Timestamp = 0, CPU = 10\<rparr>, \<lparr>Timestamp = 60, CPU = 85\<rparr>,
                   \<lparr>Timestamp = 120, CPU = 85\<rparr>, \<lparr>Timestamp = 180, CPU = 20::real\<rparr>].
        py_max_key CPU [\<lparr>Timestamp = 0, CPU = 10\<rparr>, \<lparr>Timestamp = 60, CPU = 85\<rparr>,
                        \<lparr>Timestamp = 120, CPU = 85\<rparr>, \<lparr>Timestamp = 180, CPU = 20\<rparr>]
          = Some ([\<lparr>Timestamp = 0, CPU = 10\<rparr>, \<lparr>Timestamp = 60, CPU = 85\<rparr>,
                   \<lparr>Timestamp = 120, CPU = 85\<rparr>, \<lparr>Timestamp = 180, CPU = 20\<rparr>] ! i))"
proof -
  let ?cpu = "[\<lparr>Timestamp = 0, CPU = 10\<rparr>, \<lparr>Timestamp = 60, CPU = 85\<rparr>,
               \<lparr>Timestamp = 120, CPU = 85\<rparr>, \<lparr>Timestamp = 180, CPU = 20::real\<rparr>]"
  have h: "?cpu \<noteq> []" by simp
  have v: "py_max_key CPU ?cpu = Some \<lparr>Timestamp = 60, CPU = 85\<rparr>"
    by (simp add: py_max_step_def)
  from spike_detector_first_maximum [OF h] v show ?thesis by blast
qed

subsection \<open>C3: how the window filter compares timestamps\<close>

text \<open>
  C3 (the code at a failing input). The spike is at 2026-11-01 00:05:00 (instant
  1793491500), so the before window is [31/Oct/2026:23:55:00, 01/Nov/2026:00:04:59], and
  the log holds one line written at 00:02:30. The instant of the line lies in the before
  window and in the range of the detailed fetch, yet \<open>count_logs\<close> counts 0 lines and
  \<open>fetch_logs_window\<close> returns the placeholder: awk compares the text of the timestamp
  with the text of the bounds, and \<open>01/Nov\<close> is smaller than \<open>31/Oct\<close>. (Within one day
  the texts are ordered as the instants are: the last conjunct fetches a line of
  2026-11-03 10:05:00 over the range around it.)
\<close>

theorem window_filter_compares_text:
  "in_window (bounds (define_windows 1793491500) Before) 1793491350
   \<and> strftime_log (pre_spike_start (define_windows 1793491500)) = ''31/Oct/2026:23:55:00''
   \<and> strftime_log (pre_spike_end (define_windows 1793491500)) = ''01/Nov/2026:00:04:59''
   \<and> strftime_log 1793491350 = ''01/Nov/2026:00:02:30''
   \<and> count_logs (reliable_ssm (shop_host [access_log_line 1793491350]) 0) site_shop
         (pre_spike_start (define_windows 1793491500)) (pre_spike_end (define_windows 1793491500)) = 0
   \<and> in_window (1793491500 - minutes 10, 1793491500 + minutes 10) 1793491350
   \<and> fetch_logs_window (reliable_ssm (shop_host [access_log_line 1793491350]) 3)
         (access_log_path site_shop) (1793491500 - minutes 10) (1793491500 + minutes 10)
       = ''No logs found in the window.''
   \<and> fetch_logs_window (reliable_ssm (shop_host [access_log_line 1793700300]) 3)
         (access_log_path site_shop) (1793700300 - minutes 10) (1793700300 + minutes 10)
       = access_log_line 1793700300"
  by code_simp

subsection \<open>C4: the range of the detailed log fetch\<close>


text \<open>
  The command of that call carries the two bounds as texts: the outcome of
  \<open>fetch_logs_window\<close> is read off the channel at \<open>PrintLines\<close> of the formatted bounds
  and the path, and nowhere else.
\<close>

lemma fetch_logs_window_command:
  "run (PrintLines (strftime_log a) (strftime_log b) path)
     = run' (PrintLines (strftime_log a) (strftime_log b) path)
   \<Longrightarrow> fetch_logs_window run path a b = fetch_logs_window run' path a b"
  by (simp add: fetch_logs_window_def)



subsection \<open>C5: the counting windows\<close>

text \<open>
  C5 (the code at a failing input). The spike is at 2026-11-03 10:05:00 (instant
  1793700300) and the log holds one line written exactly at \<open>spike_start\<close>. The bounds
  are as the claim gives them and the instant lies in the spike interval and not in the
  before interval (for every spike time: \<open>define_windows_bounds\<close>,
  \<open>define_windows_partition\<close>, \<open>spike_start_in_spike_interval_only\<close>), yet the line is
  counted in no window: \<open>count_logs\<close> compares \<open>substr($4, 2, 19)\<close>, the timestamp without
  its last digit, which as a proper prefix of the lower bound is smaller than it. (Of two
  lines written 9 and 10 seconds into the spike minute, only the second is counted.)
\<close>

theorem line_at_spike_start_not_counted:
  "pre_spike_start (define_windows 1793700300) = 1793700300 - minutes 10
   \<and> spike_start (define_windows 1793700300) = 1793700300
   \<and> spike_end (define_windows 1793700300) = spike_start (define_windows 1793700300) + minutes 1 - seconds 1
   \<and> post_spike_end (define_windows 1793700300) = 1793700300 + minutes 11
   \<and> in_window (bounds (define_windows 1793700300) Spike) 1793700300
   \<and> \<not> in_window (bounds (define_windows 1793700300) Before) 1793700300
   \<and> access_log_line 1793700300 = ''10.0.0.7 - - [03/Nov/2026:10:05:00 +0000] GET /cart 200 512''
   \<and> substr (awk_field 4 (access_log_line 1793700300)) 2 19 = ''03/Nov/2026:10:05:0''
   \<and> strftime_log (spike_start (define_windows 1793700300)) = ''03/Nov/2026:10:05:00''
   \<and> get_log_counts_for_sites (reliable_ssm (shop_host [access_log_line 1793700300]))
         [site_shop] 1793700300
       = Some [(''shop'', \<lparr>before = 0, spike = 0, after = 0\<rparr>)]
   \<and> get_log_counts_for_sites
         (reliable_ssm (shop_host [access_log_line 1793700309, access_log_line 1793700310]))
         [site_shop] 1793700300
       = Some [(''shop'', \<lparr>before = 0, spike = 1, after = 0\<rparr>)]"
  by code_simp

subsection \<open>C6: no clear culprit\<close>

text \<open>
  C6. Counts with \<open>before = spike = after\<close> have magnitude 0. In a cycle that reaches
  attribution (some datapoint, some site), if every service's magnitude is 0 then the
  result has no attributed service, the report ends with the "Could not identify a clear
  Spike website" fragment after the status, the metric series, the spike and the counts,
  and no detailed log fetch is made.
\<close>

theorem no_culprit_when_all_zero:
  assumes sp: "py_max_key CPU (cpu_per_minute e) = Some sp"
    and sites: "all_sites e \<noteq> []"
    and lc: "get_log_counts_for_sites (ssm_client e) (all_sites e) (Timestamp sp) = Some lc"
    and zero: "\<forall>j<length lc. site_spike (snd (lc ! j)) = 0"
  shows "(\<forall>c. before c = spike c \<and> spike c = after c \<longrightarrow> site_spike c = 0)
       \<and> attribute lc = (None, 0)
       \<and> report_sent e = Some
           ([case ec2_status e of (state, system_status, instance_status) \<Rightarrow>
               StatusHeader state system_status instance_status]
            @ map (\<lambda>dp. CpuLine (Timestamp dp) (CPU dp)) (cpu_per_minute e)
            @ [SpikeDetected (Timestamp sp) (CPU sp),
               AccessLogCounts (map (\<lambda>(name, c). (name, before c, spike c, after c, site_spike c)) lc),
               NoClearSpike])
       \<and> stages_run e = Some [GetAllGunicornSites, GetLogCountsForSites (Timestamp sp), Attribution]"
proof -
  have flat: "\<forall>c. before c = spike c \<and> spike c = after c \<longrightarrow> site_spike c = 0"
    by (simp add: site_spike_def)
  have a: "attribute lc = (None, 0)"
    using attribute_cases [of lc] zero by auto
  have ne: "cpu_per_minute e \<noteq> []" using sp by (rule py_max_key_Some_nonempty)
  show ?thesis using flat a ne sp sites lc
    by (simp add: report_sent_def stages_run_def cycle_def Let_def find_log_path_def
        split: prod.splits)
qed

text \<open>The theorem in the scenario where every count is 5.\<close>

theorem no_culprit_when_all_zero_witness:
  "attribute [(''X'', \<lparr>before = 5, spike = 5, after = 5\<rparr>),
              (''Y'', \<lparr>before = 5, spike = 5, after = 5\<rparr>)] = (None, 0)
   \<and> report_sent scenario_flat = Some
        [StatusHeader ''running'' ''ok'' ''ok'',
         CpuLine 1793700240 10, CpuLine 1793700300 85, CpuLine 1793700360 20,
         SpikeDetected 1793700300 85,
         AccessLogCounts [(''X'', 5, 5, 5, 0), (''Y'', 5, 5, 5, 0)],
         NoClearSpike]
   \<and> stages_run scenario_flat = Some [GetAllGunicornSites, GetLogCountsForSites 1793700300, Attribution]"
proof -
  let ?lc = "[(''X'', \<lparr>before = 5, spike = 5, after = 5\<rparr>),
              (''Y'', \<lparr>before = 5, spike = 5, after = 5\<rparr>)]"
  have h1: "py_max_key CPU (cpu_per_minute scenario_flat) = Some \<lparr>Timestamp = 1793700300, CPU = 85\<rparr>"
    by code_simp
  have h2: "all_sites scenario_flat \<noteq> []"
    by (simp add: scenario_flat_def scenario_def)
  have h3: "get_log_counts_for_sites (ssm_client scenario_flat) (all_sites scenario_flat)
              (Timestamp \<lparr>Timestamp = 1793700300, CPU = 85\<rparr>) = Some ?lc"
    by code_simp
  have h4: "\<forall>j<length ?lc. site_spike (snd (?lc ! j)) = 0"
    by (simp add: site_spike_def less_Suc_eq)
  from no_culprit_when_all_zero [OF h1 h2 h3 h4] show ?thesis
    by (simp add: scenario_flat_def scenario_def site_spike_def)
qed

subsection \<open>C7: an empty metric sequence\<close>

text \<open>
  C7 (as amended). On an empty metric sequence the cycle runs none of the downstream
  stages (no discovery, no counting, no attribution, no detailed fetch) and the report
  it hands over is empty: it has no spike-related fragment and no instance status either.
\<close>

theorem empty_metrics_empty_report:
  assumes "cpu_per_minute e = []"
  shows "report_sent e = Some [] \<and> stages_run e = Some []"
  using assms by (simp add: report_sent_def stages_run_def cycle_def split: prod.splits)

theorem empty_metrics_empty_report_witness:
  "report_sent (scenario_flat\<lparr>cpu_per_minute := []\<rparr>) = Some []
   \<and> stages_run (scenario_flat\<lparr>cpu_per_minute := []\<rparr>) = Some []"
proof -
  have h: "cpu_per_minute (scenario_flat\<lparr>cpu_per_minute := []\<rparr>) = []" by simp
  show ?thesis by (rule empty_metrics_empty_report [OF h])
qed

text \<open>
  C7 as stated fails: in the scenario with no datapoints the instance status is
  (running, ok, ok), and the report is empty instead of holding that status.
\<close>

theorem empty_metrics_counterexample:
  "ec2_status (scenario\<lparr>cpu_per_minute := []\<rparr>) = (''running'', ''ok'', ''ok'')
   \<and> report_sent (scenario\<lparr>cpu_per_minute := []\<rparr>) = Some []
   \<and> report_sent (scenario\<lparr>cpu_per_minute := []\<rparr>) \<noteq> Some [StatusHeader ''running'' ''ok'' ''ok'']"
  by (simp add: scenario_def report_sent_def cycle_def)

subsection \<open>C8: a failed count operation\<close>

text \<open>
  C8 (as amended). Let one count operation fail (the call raises, the log file is
  missing, or the output is blank or not an integer), namely the one of the \<open>i\<close>-th
  discovered site for window \<open>w\<close>, and let no later discovered site bear the same name, so
  that this operation is the last one written to its cell (as always when the service
  ids are distinct). Then counting completes, that cell is 0, and every other cell of
  every service is what it is over any channel \<open>chan'\<close> that differs in that one call only;
  the cycle is not aborted and its report carries the counts.
\<close>

theorem count_failure_isolated:
  assumes sp: "py_max_key CPU (cpu_per_minute e) = Some sp"
    and i: "i < length (all_sites e)"
    and last: "\<forall>j<length (all_sites e). i < j \<longrightarrow> site_name (all_sites e ! j) \<noteq> site_name (all_sites e ! i)"
    and fail: "count_failure
                 (count_command (all_sites e ! i) (bounds (define_windows (Timestamp sp)) w))
                 (ssm_client e (call_index (length (all_sites e)) w i)
                    (count_command (all_sites e ! i) (bounds (define_windows (Timestamp sp)) w)))"
    and same: "\<forall>k. k \<noteq> call_index (length (all_sites e)) w i \<longrightarrow> chan' k = ssm_client e k"
  shows "\<exists>lc lc' report.
           get_log_counts_for_sites (ssm_client e) (all_sites e) (Timestamp sp) = Some lc
         \<and> get_log_counts_for_sites chan' (all_sites e) (Timestamp sp) = Some lc'
         \<and> cell lc (site_name (all_sites e ! i)) w = Some 0
         \<and> map fst lc = map fst lc'
         \<and> (\<forall>name w'. (name, w') \<noteq> (site_name (all_sites e ! i), w) \<longrightarrow> cell lc name w' = cell lc' name w')
         \<and> report_sent e = Some report
         \<and> AccessLogCounts (map (\<lambda>(name, c). (name, before c, spike c, after c, site_spike c)) lc)
             \<in> set report"
proof -
  let ?sites = "all_sites e" and ?chan = "ssm_client e" and ?t = "Timestamp sp"
  let ?n = "length ?sites" and ?ws = "define_windows ?t"
  let ?lo = "\<lambda>w. fst (bounds ?ws w)" and ?hi = "\<lambda>w. snd (bounds ?ws w)"
  from get_log_counts_cells [of ?chan ?sites ?t] obtain lc where
    lc: "get_log_counts_for_sites ?chan ?sites ?t = Some lc"
    and keys: "map fst lc = map fst (init_log_counts ?sites)"
    and cells: "\<And>name w. cell lc name w = latest_count ?chan (?lo w) (?hi w) (call_index ?n w 0) ?sites name"
    by blast
  from get_log_counts_cells [of chan' ?sites ?t] obtain lc' where
    lc': "get_log_counts_for_sites chan' ?sites ?t = Some lc'"
    and keys': "map fst lc' = map fst (init_log_counts ?sites)"
    and cells': "\<And>name w. cell lc' name w = latest_count chan' (?lo w) (?hi w) (call_index ?n w 0) ?sites name"
    by blast
  have "count_logs (?chan (call_index ?n w i)) (?sites ! i) (?lo w) (?hi w) = 0"
    by (rule count_logs_failure) (use fail in simp)
  then have zero: "cell lc (site_name (?sites ! i)) w = Some 0"
    using cells [of "site_name (?sites ! i)" w]
      latest_count_last [OF i last, of ?chan "?lo w" "?hi w" "call_index ?n w 0"]
    by (simp add: call_index_add)
  have others: "cell lc name w' = cell lc' name w'"
    if neq: "(name, w') \<noteq> (site_name (?sites ! i), w)" for name w'
  proof -
    have "\<forall>j<?n. site_name (?sites ! j) = name \<longrightarrow>
            chan' (call_index ?n w' 0 + j) = ?chan (call_index ?n w' 0 + j)"
    proof (intro allI impI)
      fix j assume j: "j < ?n" and nm: "site_name (?sites ! j) = name"
      have "call_index ?n w' j \<noteq> call_index ?n w i"
      proof
        assume "call_index ?n w' j = call_index ?n w i"
        from call_index_inj [OF i j this] have "w' = w" "j = i" by simp_all
        with nm neq show False by simp
      qed
      then show "chan' (call_index ?n w' 0 + j) = ?chan (call_index ?n w' 0 + j)"
        using same by (simp add: call_index_add)
    qed
    from latest_count_cong [OF this] show ?thesis
      using cells [of name w'] cells' [of name w'] by simp
  qed
  have sites: "?sites \<noteq> []" using i by auto
  from cycle_reports_counts [OF sp sites lc] obtain report where
    "report_sent e = Some report"
    "AccessLogCounts (map (\<lambda>(name, c). (name, before c, spike c, after c, site_spike c)) lc) \<in> set report"
    by blast
  then show ?thesis using lc lc' zero keys keys' others by auto
qed

text \<open>
  The theorem in the scenario where the spike count of Y (site 1, call 3) raises,
  against the scenario's own channel: only the cell of Y's spike window changes, to 0.
\<close>

theorem count_failure_isolated_witness:
  "get_log_counts_for_sites (ssm_client scenario_y_fails) (all_sites scenario_y_fails) 1793700300
     = Some [(''X'', \<lparr>before = 3, spike = 40, after = 4\<rparr>), (''Y'', \<lparr>before = 2, spike = 0, after = 2\<rparr>)]
   \<and> get_log_counts_for_sites scenario_ssm (all_sites scenario_y_fails) 1793700300
     = Some [(''X'', \<lparr>before = 3, spike = 40, after = 4\<rparr>), (''Y'', \<lparr>before = 2, spike = 3, after = 2\<rparr>)]
   \<and> (\<exists>lc lc' report.
           get_log_counts_for_sites (ssm_client scenario_y_fails) (all_sites scenario_y_fails)
             (Timestamp \<lparr>Timestamp = 1793700300, CPU = 85\<rparr>) = Some lc
         \<and> get_log_counts_for_sites scenario_ssm (all_sites scenario_y_fails)
             (Timestamp \<lparr>Timestamp = 1793700300, CPU = 85\<rparr>) = Some lc'
         \<and> cell lc (site_name (all_sites scenario_y_fails ! 1)) Spike = Some 0
         \<and> map fst lc = map fst lc'
         \<and> (\<forall>name w'. (name, w') \<noteq> (site_name (all_sites scenario_y_fails ! 1), Spike)
               \<longrightarrow> cell lc name w' = cell lc' name w')
         \<and> report_sent scenario_y_fails = Some report
         \<and> AccessLogCounts (map (\<lambda>(name, c). (name, before c, spike c, after c, site_spike c)) lc)
             \<in> set report)"
proof -
  have h1: "py_max_key CPU (cpu_per_minute scenario_y_fails) = Some \<lparr>Timestamp = 1793700300, CPU = 85\<rparr>"
    by code_simp
  have h2: "1 < length (all_sites scenario_y_fails)"
    by (simp add: scenario_y_fails_def scenario_def)
  have h3: "\<forall>j<length (all_sites scenario_y_fails). 1 < j \<longrightarrow>
              site_name (all_sites scenario_y_fails ! j) \<noteq> site_name (all_sites scenario_y_fails ! 1)"
    by (simp add: scenario_y_fails_def scenario_def)
  have h4: "count_failure
              (count_command (all_sites scenario_y_fails ! 1)
                 (bounds (define_windows (Timestamp \<lparr>Timestamp = 1793700300, CPU = 85\<rparr>)) Spike))
              (ssm_client scenario_y_fails (call_index (length (all_sites scenario_y_fails)) Spike 1)
                 (count_command (all_sites scenario_y_fails ! 1)
                    (bounds (define_windows (Timestamp \<lparr>Timestamp = 1793700300, CPU = 85\<rparr>)) Spike)))"
    by (simp add: scenario_y_fails_def scenario_def count_failure_def)
  have h5: "\<forall>k. k \<noteq> call_index (length (all_sites scenario_y_fails)) Spike 1 \<longrightarrow>
              scenario_ssm k = ssm_client scenario_y_fails k"
    by (simp add: scenario_y_fails_def scenario_def)
  have v1: "get_log_counts_for_sites (ssm_client scenario_y_fails) (all_sites scenario_y_fails) 1793700300
     = Some [(''X'', \<lparr>before = 3, spike = 40, after = 4\<rparr>), (''Y'', \<lparr>before = 2, spike = 0, after = 2\<rparr>)]"
    by code_simp
  have v2: "get_log_counts_for_sites scenario_ssm (all_sites scenario_y_fails) 1793700300
     = Some [(''X'', \<lparr>before = 3, spike = 40, after = 4\<rparr>), (''Y'', \<lparr>before = 2, spike = 3, after = 2\<rparr>)]"
    by code_simp
  from count_failure_isolated [OF h1 h2 h3 h4 h5] v1 v2 show ?thesis by blast
qed

text \<open>
  C8 as stated fails when discovery lists a site twice: each entry gets its own count
  operation and the later one overwrites the cell. With the site X listed twice, the
  first operation for the before window fails (the call raises) and the second answers
  7: the cell holds 7, not 0.
\<close>

theorem count_failure_isolated_counterexample:
  "count_failure
     (count_command (all_sites scenario_twice ! 0) (bounds (define_windows 1793700300) Before))
     (ssm_client scenario_twice (call_index (length (all_sites scenario_twice)) Before 0)
        (count_command (all_sites scenario_twice ! 0) (bounds (define_windows 1793700300) Before)))
   \<and> count_logs (ssm_client scenario_twice 0) (all_sites scenario_twice ! 0)
         (pre_spike_start (define_windows 1793700300)) (pre_spike_end (define_windows 1793700300)) = 0
   \<and> get_log_counts_for_sites (ssm_client scenario_twice) (all_sites scenario_twice) 1793700300
       = Some [(''X'', \<lparr>before = 7, spike = 7, after = 7\<rparr>)]
   \<and> map_option (\<lambda>lc. cell lc ''X'' Before)
         (get_log_counts_for_sites (ssm_client scenario_twice) (all_sites scenario_twice) 1793700300)
       = Some (Some 7)"
  by code_simp

subsection \<open>C9: the report in the degraded paths\<close>

text \<open>
  C9 (as amended). In both degraded paths, an empty metric sequence and an empty
  discovery result, the cycle completes and hands over a report, and that report is the
  empty string: no fragment stands for a skipped stage, and none states that no services
  were found.
\<close>

theorem degraded_report_empty:
  assumes "cpu_per_minute e = [] \<or> all_sites e = []"
  shows "report_sent e = Some []"
proof (cases "cpu_per_minute e = []")
  case True
  then show ?thesis by (simp add: report_sent_def cycle_def split: prod.splits)
next
  case False
  then obtain sp where sp: "py_max_key CPU (cpu_per_minute e) = Some sp"
    using py_max_key_nonempty by blast
  from False assms have "all_sites e = []" by simp
  then show ?thesis using False sp
    by (simp add: report_sent_def cycle_def Let_def split: prod.splits)
qed

theorem degraded_report_empty_witness:
  "report_sent (scenario_y_fails\<lparr>all_sites := []\<rparr>) = Some []"
proof -
  have h: "cpu_per_minute (scenario_y_fails\<lparr>all_sites := []\<rparr>) = []
           \<or> all_sites (scenario_y_fails\<lparr>all_sites := []\<rparr>) = []" by simp
  show ?thesis by (rule degraded_report_empty [OF h])
qed

text \<open>
  C9 as stated fails: in the scenario with no discovered site the cycle runs discovery
  and hands over the empty report.
\<close>

theorem degraded_report_counterexample:
  "cycle (scenario\<lparr>all_sites := []\<rparr>) = Inr ([], [GetAllGunicornSites])
   \<and> report_sent (scenario\<lparr>all_sites := []\<rparr>) = Some []"
  by code_simp

subsection \<open>C10: the log path of the attributed service\<close>

text \<open>
  C10. The keys of the counts of a cycle are exactly the names of the discovered sites.
  Whenever attribution over these counts yields a service, it is one of the keys, and the
  lookup of its access-log path succeeds, giving the path of a discovered site of that
  name.
\<close>

theorem attributed_site_has_log_path:
  assumes "get_log_counts_for_sites chan sites t = Some lc"
    and "fst (attribute lc) = Some name"
  shows "fst ` set lc = site_name ` set sites
       \<and> name \<in> fst ` set lc
       \<and> find_log_path sites (Some name) \<noteq> None
       \<and> (\<exists>st\<in>set sites. site_name st = name
             \<and> find_log_path sites (Some name) = Some (access_log_path st))"
proof -
  have keys: "fst ` set lc = site_name ` set sites"
    using assms(1) by (rule get_log_counts_keys(1))
  from attributed_site_discovered [OF assms] obtain st where
    st: "st \<in> set sites" "site_name st = name"
      "find_log_path sites (Some name) = Some (access_log_path st)"
    by blast
  have "name \<in> fst ` set lc" using keys st(1,2) by auto
  then show ?thesis using keys st by auto
qed

theorem attributed_site_has_log_path_witness:
  "find_log_path [site_X, site_Y] (Some ''X'') = Some ''/var/www/X/logs/access.log''
   \<and> find_log_path [site_X, site_Y] (Some ''X'') \<noteq> None
   \<and> (\<exists>st\<in>set [site_X, site_Y]. site_name st = ''X''
         \<and> find_log_path [site_X, site_Y] (Some ''X'') = Some (access_log_path st))"
proof -
  let ?lc = "[(''X'', \<lparr>before = 3, spike = 40, after = 4\<rparr>),
              (''Y'', \<lparr>before = 2, spike = 3, after = 2\<rparr>)]"
  have h1: "get_log_counts_for_sites scenario_ssm [site_X, site_Y] 1793700300 = Some ?lc"
    by code_simp
  have h2: "fst (attribute ?lc) = Some ''X''"
    by (simp add: attribute_def attribute_step_def site_spike_def)
  have v: "find_log_path [site_X, site_Y] (Some ''X'') = Some ''/var/www/X/logs/access.log''"
    by code_simp
  from attributed_site_has_log_path [OF h1 h2] v show ?thesis by blast
qed

end
